theory Spec2Isabelle
  imports Complex_Main "HOL-Library.Sublist"
begin

section \<open>Github Release Fetcher (grf.py): a shallow embedding\<close>

text \<open>
  The program resolves a repository reference to a release of the hosting API, filters
  the release's assets by name and downloads the selected ones, resuming a file that is
  already partly on disk and comparing the final size with the size the manifest declares.

  Python strings and \<open>bytes\<close> are both \<open>char list\<close> here (a HOL \<open>char\<close> is one byte; the
  references are ASCII URLs). Python's unbounded integers are \<open>int\<close>. Python's floats
  (percentages, elapsed time, throughput) are idealised as \<open>real\<close>. Everything the
  program does beyond returning a value is explicit: the file system and the log of
  network requests are fields of a \<open>world\<close> that each function takes and returns, the
  network and the clock are parameters, and an exception is the \<open>Inl\<close> of a sum type.
\<close>

subsection \<open>String operations of the Python library that the program calls\<close>

text \<open>\<open>s.startswith(p)\<close>.\<close>

fun startswith :: "string \<Rightarrow> string \<Rightarrow> bool" where
  "startswith s [] = True"
| "startswith [] (p # ps) = False"
| "startswith (x # xs) (p # ps) = (x = p \<and> startswith xs ps)"

text \<open>\<open>sub in s\<close> for strings: \<open>sub\<close> occurs somewhere in \<open>s\<close>.\<close>

fun contains :: "string \<Rightarrow> string \<Rightarrow> bool" where
  "contains sub [] = (sub = [])"
| "contains sub (x # xs) = (startswith (x # xs) sub \<or> contains sub xs)"

text \<open>\<open>s.split(c)\<close> for a one-character separator: never an empty list.\<close>

fun split_char :: "char \<Rightarrow> string \<Rightarrow> string list" where
  "split_char c [] = [[]]"
| "split_char c (x # xs) =
     (if x = c then [] # split_char c xs
      else (case split_char c xs of
              [] \<Rightarrow> [[x]]
            | p # ps \<Rightarrow> (x # p) # ps))"

text \<open>
  \<open>s.split(sep)\<close> for a separator of any length: the scan runs left to right and the
  occurrences it cuts at do not overlap. \<open>acc\<close> holds the piece being read, reversed.
  (Python raises \<open>ValueError\<close> on an empty separator; the program's separator is a
  constant, and the empty one is never cut at here.)
\<close>

function split_str :: "string \<Rightarrow> string \<Rightarrow> string \<Rightarrow> string list" where
  "split_str sep acc [] = [rev acc]"
| "split_str sep acc (x # xs) =
     (if sep \<noteq> [] \<and> startswith (x # xs) sep
      then rev acc # split_str sep [] (drop (length sep) (x # xs))
      else split_str sep (x # acc) xs)"
  by pat_completeness auto
termination
  by (relation "measure (\<lambda>(sep, acc, s). length s)") auto

text \<open>\<open>s.strip(c)\<close> for a one-character set: drops the \<open>c\<close>s at both ends.\<close>

definition strip_char :: "char \<Rightarrow> string \<Rightarrow> string" where
  "strip_char c s = rev (dropWhile (\<lambda>x. x = c) (rev (dropWhile (\<lambda>x. x = c) s)))"

text \<open>\<open>os.path.join(a, b)\<close> of \<open>posixpath\<close>, for two components.\<close>

definition path_join :: "string \<Rightarrow> string \<Rightarrow> string" where
  "path_join a b =
     (if startswith b ''/'' then b
      else if a = [] \<or> last a = CHR ''/'' then a @ b
      else a @ ''/'' @ b)"

text \<open>Python's truth value of an optional integer and of an optional list.\<close>

definition truthy_int :: "int option \<Rightarrow> bool" where
  "truthy_int n = (case n of None \<Rightarrow> False | Some k \<Rightarrow> k \<noteq> 0)"

definition truthy_list :: "'a list option \<Rightarrow> bool" where
  "truthy_list xs = (case xs of None \<Rightarrow> False | Some ys \<Rightarrow> ys \<noteq> [])"

text \<open>\<open>int(x)\<close> of a float: truncation towards zero.\<close>

definition py_int :: "real \<Rightarrow> int" where
  "py_int x = (if x < 0 then \<lceil>x\<rceil> else \<lfloor>x\<rfloor>)"

subsection \<open>Exceptions\<close>

text \<open>
  \<open>sys.exit(1)\<close> raises \<open>SystemExit\<close>; the message printed just before it tells the four
  exits of the program apart. \<open>ConnectionResetError\<close> stands for the errors a socket read
  raises: like \<open>ValueError\<close> and \<open>ZeroDivisionError\<close> it is neither an \<open>HTTPError\<close> nor a
  \<open>URLError\<close>.
\<close>

datatype exit_message =
    InvalidApiUrl
  | InvalidRepositoryUrl
  | ConflictingReleaseTags string string
  | UnsupportedUrlFormat
  | ErrorFetchingReleaseData
  | IncludeExcludeExclusive

datatype exn =
    HTTPError nat
  | URLError
  | ConnectionResetError
  | ValueError
  | ZeroDivisionError
  | SystemExit exit_message

text \<open>The classes that \<open>except (HTTPError, URLError)\<close> catches.\<close>

fun is_http_or_url_error :: "exn \<Rightarrow> bool" where
  "is_http_or_url_error (HTTPError code) = True"
| "is_http_or_url_error URLError = True"
| "is_http_or_url_error e = False"

subsection \<open>\<open>fetch_release_data\<close>\<close>

definition api_prefix :: string where
  "api_prefix = ''https://api.github.com/repos/''"

definition web_prefix :: string where
  "web_prefix = ''https://github.com/''"

text \<open>\<open>repo_url.split("releases/tag/")[-1].strip("/")\<close> (line 116).\<close>

definition url_release_tag :: "string \<Rightarrow> string" where
  "url_release_tag repo_url = strip_char CHR ''/'' (last (split_str ''releases/tag/'' [] repo_url))"

text \<open>
  Lines 99 to 123: the reference and the \<open>--release\<close> argument become owner, repo and
  the release tag the request will use, or the program exits.
\<close>

definition resolve_reference ::
  "string \<Rightarrow> string option \<Rightarrow> exn + (string \<times> string \<times> string option)" where
  "resolve_reference repo_url release_tag =
     (if startswith repo_url api_prefix then
        (let parts = split_char CHR ''/'' (drop (length api_prefix) repo_url) in
         if length parts < 2 then Inl (SystemExit InvalidApiUrl)
         else Inr (parts ! 0, parts ! 1, release_tag))
      else if startswith repo_url web_prefix then
        (let parts = split_char CHR ''/'' (drop (length web_prefix) repo_url) in
         if length parts < 2 then Inl (SystemExit InvalidRepositoryUrl)
         else if contains ''releases/tag/'' repo_url then
           (case release_tag of
              Some t \<Rightarrow>
                if t \<noteq> [] \<and> t \<noteq> url_release_tag repo_url
                then Inl (SystemExit (ConflictingReleaseTags (url_release_tag repo_url) t))
                else Inr (parts ! 0, parts ! 1, Some (url_release_tag repo_url))
            | None \<Rightarrow> Inr (parts ! 0, parts ! 1, Some (url_release_tag repo_url)))
         else Inr (parts ! 0, parts ! 1, release_tag))
      else Inl (SystemExit UnsupportedUrlFormat))"

text \<open>Lines 126 to 130: the endpoint of the hosting API.\<close>

definition api_url :: "string \<Rightarrow> string \<Rightarrow> string option \<Rightarrow> string" where
  "api_url owner repo release_tag =
     ''https://api.github.com/repos/'' @ owner @ ''/'' @ repo @ ''/releases'' @
     (case release_tag of
        Some t \<Rightarrow> if t \<noteq> [] then ''/tags/'' @ t else ''/latest''
      | None \<Rightarrow> ''/latest'')"

record asset =
  asset_name :: string
  asset_size :: int
  browser_download_url :: string

record release_data =
  tag_name :: string
  assets :: "asset list"

text \<open>
  The whole function. \<open>api\<close> is the hosting API: what \<open>urlopen\<close> followed by reading and
  decoding the body gives for a URL, a manifest or an exception. The second component
  of the result lists the URLs that were requested.
\<close>

definition fetch_release_data ::
  "(string \<Rightarrow> exn + release_data) \<Rightarrow> string \<Rightarrow> string option \<Rightarrow>
     (exn + release_data) \<times> string list" where
  "fetch_release_data api repo_url release_tag =
     (case resolve_reference repo_url release_tag of
        Inl e \<Rightarrow> (Inl e, [])
      | Inr (owner, repo, tag) \<Rightarrow>
          (case api (api_url owner repo tag) of
             Inl e \<Rightarrow>
               (if is_http_or_url_error e then Inl (SystemExit ErrorFetchingReleaseData)
                else Inl e,
                [api_url owner repo tag])
           | Inr manifest \<Rightarrow> (Inr manifest, [api_url owner repo tag])))"

subsection \<open>\<open>filter_assets\<close>\<close>

text \<open>
  \<open>incl\<close> and \<open>excl\<close> are the source's \<open>include\<close> and \<open>exclude\<close>: \<open>None\<close> or a list of
  names, tested with Python's truth value (an empty list counts as absent).
\<close>

definition filter_assets ::
  "asset list \<Rightarrow> string list option \<Rightarrow> string list option \<Rightarrow> exn + asset list" where
  "filter_assets asset_list incl excl =
     (if truthy_list incl \<and> truthy_list excl then Inl (SystemExit IncludeExcludeExclusive)
      else if truthy_list incl
        then Inr (filter (\<lambda>a. asset_name a \<in> set (the incl)) asset_list)
      else if truthy_list excl
        then Inr (filter (\<lambda>a. asset_name a \<notin> set (the excl)) asset_list)
      else Inr asset_list)"

subsection \<open>\<open>download_file_with_progress\<close>\<close>

text \<open>
  A request is the URL and the offset of its \<open>Range: bytes=<offset>-\<close> header, when it
  has one. A response carries its \<open>Content-Length\<close> header (absent, an integer, or text
  that \<open>int\<close> refuses), the reading of the clock when streaming starts, and what each
  successive \<open>response.read(chunk_size)\<close> does: it returns a chunk, after which the clock
  reads the given time, or it raises. Past the end of the list \<open>read\<close> returns the empty
  chunk, as it does itself at the end of the body.
\<close>

datatype request = Request string "int option"

datatype header = NoHeader | Header int | BadHeader

datatype read_event = Data string real | Raises exn

record response =
  content_length :: header
  start_time :: real
  stream :: "read_event list"

datatype mode = Ab | Wb

text \<open>One progress line: the number of \<open>#\<close>, the percentage shown, the speed shown.\<close>

datatype progress = Progress int int real

record world =
  files :: "string \<rightharpoonup> string"
  requests :: "request list"
  console :: "progress list"

text \<open>
  The four ways the function returns normally, named after the message it prints:
  "File already exists and matches expected size", "Done", "Error: File size mismatch",
  "Error: Failed to download".
\<close>

datatype outcome = AlreadyComplete | Completed | SizeMismatch | TransferFailed exn

text \<open>
  Lines 45 to 56: the request, the mode the file will be opened in and the size already
  on disk; \<open>None\<close> is the early \<open>return\<close> of line 49.
\<close>

definition prepare ::
  "world \<Rightarrow> string \<Rightarrow> string \<Rightarrow> int option \<Rightarrow> (request \<times> mode \<times> int) option" where
  "prepare w url target_path expected_size =
     (case files w target_path of
        Some old \<Rightarrow>
          (let existing_size = int (length old) in
           if truthy_int expected_size \<and> Some existing_size = expected_size then None
           else Some (Request url (Some existing_size), Ab, existing_size))
      | None \<Rightarrow> Some (Request url None, Wb, 0))"

text \<open>\<open>open(target_path, mode)\<close> and \<open>target_file.write(chunk)\<close>.\<close>

definition open_file :: "world \<Rightarrow> string \<Rightarrow> mode \<Rightarrow> world" where
  "open_file w target_path m =
     (case m of
        Wb \<Rightarrow> w\<lparr>files := (files w)(target_path \<mapsto> [])\<rparr>
      | Ab \<Rightarrow> (case files w target_path of
                 None \<Rightarrow> w\<lparr>files := (files w)(target_path \<mapsto> [])\<rparr>
               | Some old \<Rightarrow> w))"

definition write_chunk :: "world \<Rightarrow> string \<Rightarrow> string \<Rightarrow> world" where
  "write_chunk w target_path chunk =
     w\<lparr>files := (files w)(target_path \<mapsto>
          (case files w target_path of None \<Rightarrow> chunk | Some old \<Rightarrow> old @ chunk))\<rparr>"

definition getsize :: "world \<Rightarrow> string \<Rightarrow> int" where
  "getsize w target_path = (case files w target_path of None \<Rightarrow> 0 | Some c \<Rightarrow> int (length c))"

text \<open>
  Lines 64 to 83, the \<open>while True\<close> loop: one equation per thing \<open>read\<close> can do. The
  division by \<open>file_size\<close> of line 71 has no guard; the one by the elapsed time has.
\<close>

fun stream_loop ::
  "string \<Rightarrow> int \<Rightarrow> real \<Rightarrow> int \<Rightarrow> read_event list \<Rightarrow> world \<Rightarrow> (exn + unit) \<times> world" where
  "stream_loop target_path file_size start bytes_so_far [] w = (Inr (), w)"
| "stream_loop target_path file_size start bytes_so_far (Raises e # evs) w = (Inl e, w)"
| "stream_loop target_path file_size start bytes_so_far (Data chunk now # evs) w =
     (if chunk = [] then (Inr (), w)
      else
        (let w1 = write_chunk w target_path chunk;
             bytes_so_far1 = bytes_so_far + int (length chunk)
         in if file_size = 0 then (Inl ZeroDivisionError, w1)
            else
              (let percent_complete = (real_of_int bytes_so_far1 / real_of_int file_size) * 100;
                   elapsed_time = now - start;
                   download_speed =
                     (if elapsed_time > 0 then real_of_int bytes_so_far1 / elapsed_time else 0);
                   num_chars = py_int (percent_complete / (100 / 50))
               in stream_loop target_path file_size start bytes_so_far1 evs
                    (w1\<lparr>console := console w1 @
                         [Progress num_chars (py_int percent_complete) download_speed]\<rparr>))))"

text \<open>
  Two readings of a response's stream, used to state properties (the program computes
  neither): the bytes the server delivers before the end of the body, and whether the
  stream reaches its end without \<open>read\<close> raising.
\<close>

fun delivered :: "read_event list \<Rightarrow> string" where
  "delivered [] = []"
| "delivered (Raises e # evs) = []"
| "delivered (Data chunk now # evs) = (if chunk = [] then [] else chunk @ delivered evs)"

fun reads_to_end :: "read_event list \<Rightarrow> bool" where
  "reads_to_end [] = True"
| "reads_to_end (Raises e # evs) = False"
| "reads_to_end (Data chunk now # evs) = (chunk = [] \<or> reads_to_end evs)"

text \<open>Lines 58 to 91: the body of the \<open>try\<close> after the request has been prepared.\<close>

definition transfer ::
  "(request \<Rightarrow> exn + response) \<Rightarrow> request \<Rightarrow> mode \<Rightarrow> string \<Rightarrow> int \<Rightarrow> int option \<Rightarrow>
     world \<Rightarrow> (exn + outcome) \<times> world" where
  "transfer urlopen req m target_path existing_size expected_size w =
     (let w1 = w\<lparr>requests := requests w @ [req]\<rparr> in
      case urlopen req of
        Inl e \<Rightarrow> (Inl e, w1)
      | Inr resp \<Rightarrow>
          (let w2 = open_file w1 target_path m in
           case content_length resp of
             BadHeader \<Rightarrow> (Inl ValueError, w2)
           | h \<Rightarrow>
               (let file_size = (case h of Header n \<Rightarrow> n | _ \<Rightarrow> 0) + existing_size in
                case stream_loop target_path file_size (start_time resp) existing_size
                       (stream resp) w2 of
                  (Inl e, w3) \<Rightarrow> (Inl e, w3)
                | (Inr u, w3) \<Rightarrow>
                    (if truthy_int expected_size \<and> Some (getsize w3 target_path) \<noteq> expected_size
                     then (Inr SizeMismatch, w3)
                     else (Inr Completed, w3)))))"

text \<open>The \<open>except (HTTPError, URLError)\<close> clause of line 93.\<close>

definition except_clause :: "(exn + outcome) \<times> world \<Rightarrow> (exn + outcome) \<times> world" where
  "except_clause r =
     (case r of
        (Inl e, w) \<Rightarrow> if is_http_or_url_error e then (Inr (TransferFailed e), w) else (Inl e, w)
      | (Inr out, w) \<Rightarrow> (Inr out, w))"

definition download_file_with_progress ::
  "(request \<Rightarrow> exn + response) \<Rightarrow> string \<Rightarrow> string \<Rightarrow> int option \<Rightarrow> world \<Rightarrow>
     (exn + outcome) \<times> world" where
  "download_file_with_progress urlopen url target_path expected_size w =
     (case prepare w url target_path expected_size of
        None \<Rightarrow> (Inr AlreadyComplete, w)
      | Some (req, m, existing_size) \<Rightarrow>
          except_clause (transfer urlopen req m target_path existing_size expected_size w))"

subsection \<open>The download loop of \<open>main\<close>\<close>

text \<open>
  Lines 185 to 189. Nothing around the call catches an exception, so one that leaves
  \<open>download_file_with_progress\<close> ends the loop and the program.
\<close>

fun download_assets ::
  "(request \<Rightarrow> exn + response) \<Rightarrow> string \<Rightarrow> asset list \<Rightarrow> world \<Rightarrow> (exn + unit) \<times> world" where
  "download_assets urlopen output_dir [] w = (Inr (), w)"
| "download_assets urlopen output_dir (a # rest) w =
     (case download_file_with_progress urlopen (browser_download_url a)
             (path_join output_dir (asset_name a)) (Some (asset_size a)) w of
        (Inl e, w1) \<Rightarrow> (Inl e, w1)
      | (Inr out, w1) \<Rightarrow> download_assets urlopen output_dir rest w1)"

section \<open>Facts about the string operations\<close>

lemma split_char_not_Nil: "split_char c s \<noteq> []"
  by (induction s) (auto split: list.splits)

lemma split_char_head:
  "split_char c s = p # ps \<Longrightarrow>
     c \<notin> set p \<and> (if ps = [] then s = p else \<exists>s'. s = p @ c # s' \<and> ps = split_char c s')"
proof (induction s arbitrary: p ps)
  case Nil
  then show ?case by simp
next
  case (Cons x xs)
  show ?case
  proof (cases "x = c")
    case True
    with Cons.prems show ?thesis by (auto simp: split_char_not_Nil)
  next
    case False
    obtain q qs where q: "split_char c xs = q # qs"
      using split_char_not_Nil by (cases "split_char c xs") auto
    with False Cons.prems have p: "p = x # q" "ps = qs" by auto
    from Cons.IH [OF q] False p show ?thesis by auto
  qed
qed

lemma first_two_segments:
  assumes "2 \<le> length (split_char c s)"
  shows "\<exists>tail. s = split_char c s ! 0 @ [c] @ split_char c s ! 1 @ tail \<and>
           (tail = [] \<or> hd tail = c) \<and>
           c \<notin> set (split_char c s ! 0) \<and> c \<notin> set (split_char c s ! 1)"
proof -
  from assms obtain p q qs where pq: "split_char c s = p # q # qs"
    by (cases "split_char c s"; cases "tl (split_char c s)") auto
  from split_char_head [OF pq] obtain s' where
    s': "c \<notin> set p" "s = p @ c # s'" "q # qs = split_char c s'"
    by auto
  from split_char_head [OF s'(3) [symmetric]] have
    q: "c \<notin> set q" "if qs = [] then s' = q else \<exists>s''. s' = q @ c # s'' \<and> qs = split_char c s''"
    by auto
  have "\<exists>tail. s = p @ [c] @ q @ tail \<and> (tail = [] \<or> hd tail = c)"
  proof (cases "qs = []")
    case True
    with q(2) s'(2) show ?thesis by simp
  next
    case False
    with q(2) obtain s'' where "s' = q @ c # s''" by auto
    with s'(2) have "s = p @ [c] @ q @ (c # s'')" by simp
    then show ?thesis by (intro exI [of _ "c # s''"]) simp
  qed
  moreover have "split_char c s ! 0 = p" "split_char c s ! 1 = q"
    by (simp_all add: pq)
  ultimately show ?thesis
    using s'(1) q(1) by simp
qed

lemma startswith_iff: "startswith s p \<longleftrightarrow> (\<exists>r. s = p @ r)"
  by (induction s p rule: startswith.induct) auto


lemma startswith_set: "startswith s p \<Longrightarrow> set p \<subseteq> set s"
  by (auto simp: startswith_iff)

lemma contains_set: "contains sub s \<Longrightarrow> set sub \<subseteq> set s"
proof (induction s)
  case Nil
  then show ?case by simp
next
  case (Cons x xs)
  from Cons.prems have "startswith (x # xs) sub \<or> contains sub xs" by simp
  then show ?case
  proof
    assume "startswith (x # xs) sub"
    then show ?thesis by (rule startswith_set)
  next
    assume "contains sub xs"
    then have "set sub \<subseteq> set xs" by (rule Cons.IH)
    then show ?thesis by auto
  qed
qed

lemma split_char_two: "2 \<le> length (split_char c s) \<longleftrightarrow> c \<in> set s"
  by (induction s) (auto split: list.splits simp: split_char_not_Nil)

lemma not_both_prefixes: "startswith s web_prefix \<Longrightarrow> \<not> startswith s api_prefix"
  by (auto simp: startswith_iff web_prefix_def api_prefix_def)

lemma contains_past_web_prefix:
  "contains ''releases/tag/'' (web_prefix @ r) = contains ''releases/tag/'' r"
  by (simp add: web_prefix_def)

lemma web_tag_parts:
  assumes "startswith repo_url web_prefix" and "contains ''releases/tag/'' repo_url"
  shows "2 \<le> length (split_char CHR ''/'' (drop (length web_prefix) repo_url))"
proof -
  from assms(1) obtain r where r: "repo_url = web_prefix @ r"
    by (auto simp: startswith_iff)
  with assms(2) have "contains ''releases/tag/'' r"
    by (simp only: contains_past_web_prefix)
  then have "CHR ''/'' \<in> set r"
    using contains_set by fastforce
  then show ?thesis
    by (simp add: r split_char_two)
qed


section \<open>Reference resolution\<close>

text \<open>
  C5. A web-style reference (one that starts with \<open>https://github.com/\<close>) that contains
  \<open>releases/tag/\<close> embeds the tag \<open>url_release_tag\<close> reads from it. When a tag is
  also requested with \<open>--release\<close> (a tag is a non-empty string: the program treats the
  empty string as no tag, here and when it builds the endpoint) and differs from the
  embedded one, \<open>fetch_release_data\<close> exits with the conflicting-tags message and the list
  of requested URLs is empty: no network call is made.
\<close>

theorem conflicting_tag_is_rejected:
  assumes "startswith repo_url web_prefix" and "contains ''releases/tag/'' repo_url"
      and "t \<noteq> []" and "t \<noteq> url_release_tag repo_url"
  shows "fetch_release_data api repo_url (Some t) =
           (Inl (SystemExit (ConflictingReleaseTags (url_release_tag repo_url) t)), [])"
proof -
  have a: "\<not> startswith repo_url api_prefix"
    using assms(1) by (rule not_both_prefixes)
  have b: "\<not> length (split_char CHR ''/'' (drop (length web_prefix) repo_url)) < 2"
    using web_tag_parts [OF assms(1,2)] by simp
  have "resolve_reference repo_url (Some t) =
          Inl (SystemExit (ConflictingReleaseTags (url_release_tag repo_url) t))"
    unfolding resolve_reference_def Let_def using a b assms by simp
  then show ?thesis
    by (simp add: fetch_release_data_def)
qed

theorem conflicting_tag_is_rejected_witness:
  "startswith ''https://github.com/acme/tool/releases/tag/v2.0'' web_prefix \<and>
   contains ''releases/tag/'' ''https://github.com/acme/tool/releases/tag/v2.0'' \<and>
   ''v1.0'' \<noteq> [] \<and>
   ''v1.0'' \<noteq> url_release_tag ''https://github.com/acme/tool/releases/tag/v2.0'' \<and>
   fetch_release_data (\<lambda>u. Inl URLError) ''https://github.com/acme/tool/releases/tag/v2.0''
     (Some ''v1.0'') =
     (Inl (SystemExit (ConflictingReleaseTags ''v2.0'' ''v1.0'')), [])"
proof -
  let ?url = "''https://github.com/acme/tool/releases/tag/v2.0''"
  have h1: "startswith ?url web_prefix" by (simp add: web_prefix_def)
  have h2: "contains ''releases/tag/'' ?url" by simp
  have h3: "''v1.0'' \<noteq> []" by simp
  have tag: "url_release_tag ?url = ''v2.0''"
    by (simp add: url_release_tag_def strip_char_def)
  have h4: "''v1.0'' \<noteq> url_release_tag ?url" by (simp add: tag)
  from conflicting_tag_is_rejected [OF h1 h2 h3 h4, of "\<lambda>u. Inl URLError"] h1 h2 h4
  show ?thesis by (simp add: tag)
qed

text \<open>
  C6. The program at the reference
  \<open>https://api.github.com/repos/acme/tool/releases/tags/v2.0\<close> with no \<open>--release\<close>: the
  branch for API URLs takes the owner and the repo and never looks for a tag, so the tag
  stays absent and the one request goes to the \<open>latest\<close> endpoint, whatever the API
  answers. The same tag in a web-style reference is found (the lemma after it).
\<close>

theorem api_reference_tag_is_ignored:
  "resolve_reference ''https://api.github.com/repos/acme/tool/releases/tags/v2.0'' None =
     Inr (''acme'', ''tool'', None) \<and>
   snd (fetch_release_data api ''https://api.github.com/repos/acme/tool/releases/tags/v2.0'' None) =
     [''https://api.github.com/repos/acme/tool/releases/latest'']"
  by (simp add: fetch_release_data_def resolve_reference_def api_prefix_def api_url_def
        split: sum.split)

lemma web_reference_tag_is_used:
  "snd (fetch_release_data api ''https://github.com/acme/tool/releases/tag/v2.0'' None) =
     [''https://api.github.com/repos/acme/tool/releases/tags/v2.0'']"
  by (simp add: fetch_release_data_def resolve_reference_def api_prefix_def web_prefix_def
        api_url_def url_release_tag_def strip_char_def split: sum.split)

text \<open>
  C8, as the program has it. The program accepts a reference when the text after the
  recognised prefix has at least two \<open>/\<close>-separated segments, so at least one \<open>/\<close>; it
  does not look at what the segments hold. For every accepted reference the owner is
  the text between the prefix and the first \<open>/\<close> after it, the repo is the text from
  there to the next \<open>/\<close> or to the end, and neither contains a \<open>/\<close>; either may be
  empty, as the reference \<open>https://github.com/acme/\<close> shows.
\<close>

theorem accepted_reference_segments:
  assumes "resolve_reference repo_url release_tag = Inr (owner, repo, tag)"
  shows "\<exists>pre tail. (pre = api_prefix \<or> pre = web_prefix) \<and>
           repo_url = pre @ owner @ ''/'' @ repo @ tail \<and>
           (tail = [] \<or> hd tail = CHR ''/'') \<and>
           CHR ''/'' \<notin> set owner \<and> CHR ''/'' \<notin> set repo"
proof -
  have seg: "\<exists>tail. pre @ r = pre @ split_char CHR ''/'' r ! 0 @ ''/'' @ split_char CHR ''/'' r ! 1 @ tail \<and>
           (tail = [] \<or> hd tail = CHR ''/'') \<and>
           CHR ''/'' \<notin> set (split_char CHR ''/'' r ! 0) \<and> CHR ''/'' \<notin> set (split_char CHR ''/'' r ! 1)"
    if "\<not> length (split_char CHR ''/'' r) < 2" for pre r
    using first_two_segments [of "CHR ''/''" r] that by auto
  show ?thesis
  proof (cases "startswith repo_url api_prefix")
    case True
    then obtain r where r: "repo_url = api_prefix @ r" by (auto simp: startswith_iff)
    with assms True have l: "\<not> length (split_char CHR ''/'' r) < 2"
      and o: "owner = split_char CHR ''/'' r ! 0" "repo = split_char CHR ''/'' r ! 1"
      by (auto simp: resolve_reference_def Let_def split: if_splits)
    from seg [OF l, of api_prefix] show ?thesis unfolding r o by blast
  next
    case False
    with assms have w: "startswith repo_url web_prefix"
      by (auto simp: resolve_reference_def Let_def split: if_splits)
    then obtain r where r: "repo_url = web_prefix @ r" by (auto simp: startswith_iff)
    with assms False w have l: "\<not> length (split_char CHR ''/'' r) < 2"
      and o: "owner = split_char CHR ''/'' r ! 0" "repo = split_char CHR ''/'' r ! 1"
      by (auto simp: resolve_reference_def Let_def split: if_splits option.splits)
    from seg [OF l, of web_prefix] show ?thesis unfolding r o by blast
  qed
qed

theorem accepted_reference_segments_witness:
  "resolve_reference ''https://github.com/acme/tool/releases'' None =
     Inr (''acme'', ''tool'', None) \<and>
   (\<exists>pre tail. (pre = api_prefix \<or> pre = web_prefix) \<and>
      ''https://github.com/acme/tool/releases'' = pre @ ''acme'' @ ''/'' @ ''tool'' @ tail \<and>
      (tail = [] \<or> hd tail = CHR ''/'') \<and>
      CHR ''/'' \<notin> set ''acme'' \<and> CHR ''/'' \<notin> set ''tool'')"
proof -
  have h: "resolve_reference ''https://github.com/acme/tool/releases'' None =
             Inr (''acme'', ''tool'', None)"
    by (simp add: resolve_reference_def api_prefix_def web_prefix_def)
  from accepted_reference_segments [OF h] h show ?thesis by blast
qed

theorem accepted_reference_with_empty_repo:
  "resolve_reference ''https://github.com/acme/'' None = Inr (''acme'', [], None)"
  by (simp add: resolve_reference_def api_prefix_def web_prefix_def)


section \<open>Asset selection\<close>

text \<open>
  C7. In include mode (a non-empty include list and no exclude list) the selection never
  fails, whatever the names asked for: it returns the assets whose name is in the include
  list, in the order of the manifest, so a subsequence of the input whose members are
  exactly the input's assets with such a name.
\<close>

theorem filter_assets_include:
  assumes "incl \<noteq> []" and "\<not> truthy_list excl"
  shows "filter_assets asset_list (Some incl) excl =
           Inr (filter (\<lambda>a. asset_name a \<in> set incl) asset_list) \<and>
         subseq (filter (\<lambda>a. asset_name a \<in> set incl) asset_list) asset_list \<and>
         set (filter (\<lambda>a. asset_name a \<in> set incl) asset_list) =
           {a \<in> set asset_list. asset_name a \<in> set incl}"
  using assms by (simp add: filter_assets_def truthy_list_def)

theorem filter_assets_include_witness:
  "[''c.zip'', ''nothing.zip'', ''a.zip''] \<noteq> [] \<and> \<not> truthy_list (None :: string list option) \<and>
   filter_assets
     [\<lparr>asset_name = ''a.zip'', asset_size = 100, browser_download_url = ''u1''\<rparr>,
      \<lparr>asset_name = ''b.zip'', asset_size = 200, browser_download_url = ''u2''\<rparr>,
      \<lparr>asset_name = ''c.zip'', asset_size = 300, browser_download_url = ''u3''\<rparr>]
     (Some [''c.zip'', ''nothing.zip'', ''a.zip'']) None =
   Inr [\<lparr>asset_name = ''a.zip'', asset_size = 100, browser_download_url = ''u1''\<rparr>,
        \<lparr>asset_name = ''c.zip'', asset_size = 300, browser_download_url = ''u3''\<rparr>]"
  using filter_assets_include [of "[''c.zip'', ''nothing.zip'', ''a.zip'']" None
    "[\<lparr>asset_name = ''a.zip'', asset_size = 100, browser_download_url = ''u1''\<rparr>,
      \<lparr>asset_name = ''b.zip'', asset_size = 200, browser_download_url = ''u2''\<rparr>,
      \<lparr>asset_name = ''c.zip'', asset_size = 300, browser_download_url = ''u3''\<rparr>]"]
  by (simp add: truthy_list_def)

section \<open>Facts about the stream loop and the transfer\<close>

lemma write_chunk_simps [simp]:
  "requests (write_chunk w p chunk) = requests w"
  "console (write_chunk w p chunk) = console w"
  "files w p = Some c \<Longrightarrow> files (write_chunk w p chunk) p = Some (c @ chunk)"
  by (simp_all add: write_chunk_def)

lemma open_file_simps [simp]:
  "requests (open_file w p m) = requests w"
  "files w p = Some c \<Longrightarrow> files (open_file w p Ab) p = Some c"
  "files (open_file w p Wb) p = Some []"
  by (simp_all add: open_file_def split: mode.split option.split)

lemma stream_loop_requests:
  "requests (snd (stream_loop p fs st b evs w)) = requests w"
  by (induction p fs st b evs w rule: stream_loop.induct) (simp_all add: Let_def del: of_int_add)

lemma stream_loop_step:
  "chunk \<noteq> [] \<Longrightarrow> fs \<noteq> 0 \<Longrightarrow>
     \<exists>u. stream_loop p fs st b (Data chunk now # evs) w =
           stream_loop p fs st (b + int (length chunk)) evs (write_chunk w p chunk\<lparr>console := u\<rparr>)"
  by (simp only: stream_loop.simps Let_def if_False) (rule exI, rule refl)

lemma stream_loop_extends:
  "files w p = Some c \<Longrightarrow> \<exists>sfx. files (snd (stream_loop p fs st b evs w)) p = Some (c @ sfx)"
proof (induction evs arbitrary: w c b)
  case Nil
  then show ?case by simp
next
  case (Cons ev evs)
  show ?case
  proof (cases ev)
    case (Raises e)
    with Cons.prems show ?thesis by simp
  next
    case (Data chunk now)
    show ?thesis
    proof (cases "chunk = [] \<or> fs = 0")
      case True
      with Cons.prems Data show ?thesis by (auto simp: Let_def)
    next
      case False
      then obtain u where u: "stream_loop p fs st b (ev # evs) w =
          stream_loop p fs st (b + int (length chunk)) evs (write_chunk w p chunk\<lparr>console := u\<rparr>)"
        unfolding Data using stream_loop_step by blast
      have "files (write_chunk w p chunk\<lparr>console := u\<rparr>) p = Some (c @ chunk)"
        using Cons.prems by simp
      from Cons.IH [OF this] obtain sfx where
        "files (snd (stream_loop p fs st b (ev # evs) w)) p = Some ((c @ chunk) @ sfx)"
        unfolding u by blast
      then show ?thesis by (intro exI [of _ "chunk @ sfx"]) simp
    qed
  qed
qed

lemma stream_loop_reads_to_end:
  "reads_to_end evs \<Longrightarrow> fs \<noteq> 0 \<or> delivered evs = [] \<Longrightarrow> files w p = Some c \<Longrightarrow>
     fst (stream_loop p fs st b evs w) = Inr () \<and>
     files (snd (stream_loop p fs st b evs w)) p = Some (c @ delivered evs)"
proof (induction evs arbitrary: w c b)
  case Nil
  then show ?case by simp
next
  case (Cons ev evs)
  show ?case
  proof (cases ev)
    case (Raises e)
    with Cons.prems show ?thesis by simp
  next
    case (Data chunk now)
    show ?thesis
    proof (cases "chunk = []")
      case True
      with Cons.prems Data show ?thesis by simp
    next
      case False
      with Cons.prems Data have fs: "fs \<noteq> 0" and r: "reads_to_end evs" by auto
      from False fs obtain u where u: "stream_loop p fs st b (ev # evs) w =
          stream_loop p fs st (b + int (length chunk)) evs (write_chunk w p chunk\<lparr>console := u\<rparr>)"
        unfolding Data using stream_loop_step by blast
      have "files (write_chunk w p chunk\<lparr>console := u\<rparr>) p = Some (c @ chunk)"
        using Cons.prems by simp
      from Cons.IH [OF r _ this] fs have
        "fst (stream_loop p fs st b (ev # evs) w) = Inr () \<and>
         files (snd (stream_loop p fs st b (ev # evs) w)) p = Some ((c @ chunk) @ delivered evs)"
        unfolding u by blast
      with False Data show ?thesis by simp
    qed
  qed
qed

lemma stream_loop_requests':
  "stream_loop p fs st b evs w = (r, w') \<Longrightarrow> requests w' = requests w"
  using stream_loop_requests [of p fs st b evs w] by simp

lemma stream_loop_extends':
  "stream_loop p fs st b evs w = (r, w') \<Longrightarrow> files w p = Some c \<Longrightarrow>
     \<exists>sfx. files w' p = Some (c @ sfx)"
  using stream_loop_extends [of w p c fs st b evs] by simp

lemma snd_except_clause [simp]: "snd (except_clause r) = snd r"
  by (auto simp: except_clause_def split: prod.splits sum.splits)

lemma transfer_requests:
  "requests (snd (transfer urlopen req m p ex expd w)) = requests w @ [req]"
  by (auto simp: transfer_def Let_def split: sum.splits header.splits prod.splits
           dest!: stream_loop_requests')

lemma transfer_extends:
  assumes "files w p = Some old"
  shows "\<exists>sfx. files (snd (transfer urlopen req Ab p ex expd w)) p = Some (old @ sfx)"
proof (cases "urlopen req")
  case (Inl e)
  with assms show ?thesis by (simp add: transfer_def)
next
  case (Inr resp)
  let ?w2 = "open_file (w\<lparr>requests := requests w @ [req]\<rparr>) p Ab"
  have w2: "files ?w2 p = Some old" using assms by simp
  show ?thesis
  proof (cases "content_length resp = BadHeader")
    case True
    with Inr w2 show ?thesis by (simp add: transfer_def Let_def)
  next
    case False
    define fs where "fs = (case content_length resp of Header n \<Rightarrow> n | _ \<Rightarrow> 0) + ex"
    obtain r w3 where l: "stream_loop p fs (start_time resp) ex (stream resp) ?w2 = (r, w3)"
      by (cases "stream_loop p fs (start_time resp) ex (stream resp) ?w2")
    from stream_loop_extends' [OF l w2] obtain sfx where "files w3 p = Some (old @ sfx)" ..
    moreover have "snd (transfer urlopen req Ab p ex expd w) = w3"
      using Inr False l unfolding transfer_def Let_def fs_def
      by (cases "content_length resp"; cases r) simp_all
    ultimately show ?thesis by auto
  qed
qed

lemma prepare_existing:
  "files w p = Some old \<Longrightarrow>
     prepare w url p expd =
       (if truthy_int expd \<and> Some (int (length old)) = expd then None
        else Some (Request url (Some (int (length old))), Ab, int (length old)))"
  by (simp add: prepare_def Let_def)

lemma download_extends:
  assumes "files w p = Some old"
  shows "\<exists>sfx. files (snd (download_file_with_progress urlopen url p expd w)) p = Some (old @ sfx)"
proof (cases "truthy_int expd \<and> Some (int (length old)) = expd")
  case True
  with assms show ?thesis
    by (simp add: download_file_with_progress_def prepare_existing)
next
  case False
  with assms transfer_extends [OF assms] show ?thesis
    by (simp add: download_file_with_progress_def prepare_existing)
qed

lemma download_requests:
  "prepare w url p expd = Some (req, m, ex) \<Longrightarrow>
     requests (snd (download_file_with_progress urlopen url p expd w)) = requests w @ [req]"
  by (simp add: download_file_with_progress_def transfer_requests)

lemma transfer_complete:
  assumes "urlopen req = Inr resp" and "reads_to_end (stream resp)"
      and "content_length resp = Header n" and "int (length (delivered (stream resp))) = n"
      and "files w p = Some old" and "ex = int (length old)"
  shows "files (snd (transfer urlopen req Ab p ex expd w)) p = Some (old @ delivered (stream resp)) \<and>
         fst (transfer urlopen req Ab p ex expd w) =
           Inr (if truthy_int expd \<and> Some (ex + n) \<noteq> expd then SizeMismatch else Completed)"
proof -
  let ?w2 = "open_file (w\<lparr>requests := requests w @ [req]\<rparr>) p Ab"
  have w2: "files ?w2 p = Some old" using assms(5) by simp
  have fs: "n + ex \<noteq> 0 \<or> delivered (stream resp) = []"
    using assms(4,6) by (cases "delivered (stream resp)") auto
  obtain r w3 where l: "stream_loop p (n + ex) (start_time resp) ex (stream resp) ?w2 = (r, w3)"
    by (cases "stream_loop p (n + ex) (start_time resp) ex (stream resp) ?w2")
  from stream_loop_reads_to_end [OF assms(2) fs w2, of "start_time resp" ex] l
  have r: "r = Inr ()" and f: "files w3 p = Some (old @ delivered (stream resp))"
    by simp_all
  have g: "getsize w3 p = ex + n"
    using f assms(4,6) by (simp add: getsize_def)
  show ?thesis
    using assms(1,3) l r f g by (simp add: transfer_def Let_def)
qed

lemma fst_except_clause_Inr: "fst r = Inr out \<Longrightarrow> fst (except_clause r) = Inr out"
  by (cases r) (simp add: except_clause_def)


section \<open>The download engine\<close>

text \<open>
  C1. The target file is on disk and shorter than the declared size. Whatever the network
  does, the one request of the download carries \<open>Range: bytes=<size on disk>-\<close>. When
  the server answers with a response whose \<open>Content-Length\<close> is the number of bytes it
  then delivers, and no read fails, the file afterwards is the old content followed by
  the response body, its size is the size it had plus the content length, and the
  outcome is "Done" when that is the declared size and "File size mismatch" otherwise.
\<close>

theorem resumed_download:
  assumes "files w p = Some old" and "int (length old) < declared"
  shows "requests (snd (download_file_with_progress urlopen url p (Some declared) w)) =
           requests w @ [Request url (Some (int (length old)))] \<and>
         (urlopen (Request url (Some (int (length old)))) = Inr resp \<and>
          reads_to_end (stream resp) \<and> content_length resp = Header n \<and>
          int (length (delivered (stream resp))) = n \<longrightarrow>
            files (snd (download_file_with_progress urlopen url p (Some declared) w)) p =
              Some (old @ delivered (stream resp)) \<and>
            getsize (snd (download_file_with_progress urlopen url p (Some declared) w)) p =
              int (length old) + n \<and>
            fst (download_file_with_progress urlopen url p (Some declared) w) =
              Inr (if int (length old) + n = declared then Completed else SizeMismatch))"
proof -
  let ?req = "Request url (Some (int (length old)))"
  let ?ex = "int (length old)"
  have pr: "prepare w url p (Some declared) = Some (?req, Ab, ?ex)"
    using assms by (auto simp: prepare_existing truthy_int_def)
  have d: "download_file_with_progress urlopen url p (Some declared) w =
             except_clause (transfer urlopen ?req Ab p ?ex (Some declared) w)"
    by (simp add: download_file_with_progress_def pr)
  have t: "truthy_int (Some declared)"
    using assms(2) by (simp add: truthy_int_def)
  have "requests (snd (download_file_with_progress urlopen url p (Some declared) w)) =
          requests w @ [?req]"
    using pr by (rule download_requests)
  moreover have
    "files (snd (download_file_with_progress urlopen url p (Some declared) w)) p =
       Some (old @ delivered (stream resp)) \<and>
     getsize (snd (download_file_with_progress urlopen url p (Some declared) w)) p = ?ex + n \<and>
     fst (download_file_with_progress urlopen url p (Some declared) w) =
       Inr (if ?ex + n = declared then Completed else SizeMismatch)"
    if h: "urlopen ?req = Inr resp" "reads_to_end (stream resp)"
          "content_length resp = Header n" "int (length (delivered (stream resp))) = n"
  proof -
    from transfer_complete [where urlopen = urlopen and req = ?req and expd = "Some declared",
        OF h assms(1) refl] t
    have f: "files (snd (transfer urlopen ?req Ab p ?ex (Some declared) w)) p =
               Some (old @ delivered (stream resp))"
      and o: "fst (transfer urlopen ?req Ab p ?ex (Some declared) w) =
               Inr (if ?ex + n = declared then Completed else SizeMismatch)"
      by auto
    from f h(4) have "getsize (snd (transfer urlopen ?req Ab p ?ex (Some declared) w)) p = ?ex + n"
      by (simp add: getsize_def)
    with f fst_except_clause_Inr [OF o] show ?thesis
      unfolding d by simp
  qed
  ultimately show ?thesis by blast
qed

theorem resumed_download_witness:
  "files \<lparr>files = [''out/v1.0/a.zip'' \<mapsto> replicate 40 CHR ''x''], requests = [], console = []\<rparr>
     ''out/v1.0/a.zip'' = Some (replicate 40 CHR ''x'') \<and>
   int (length (replicate 40 CHR ''x'')) < 100 \<and>
   reads_to_end [Data (replicate 60 CHR ''y'') 2] \<and>
   int (length (delivered [Data (replicate 60 CHR ''y'') 2])) = 60 \<and>
   requests (snd (download_file_with_progress
      (\<lambda>req. Inr \<lparr>content_length = Header 60, start_time = 0,
                   stream = [Data (replicate 60 CHR ''y'') 2]\<rparr>)
      ''https://example.org/a.zip'' ''out/v1.0/a.zip'' (Some 100)
      \<lparr>files = [''out/v1.0/a.zip'' \<mapsto> replicate 40 CHR ''x''], requests = [], console = []\<rparr>)) =
     [Request ''https://example.org/a.zip'' (Some 40)] \<and>
   getsize (snd (download_file_with_progress
      (\<lambda>req. Inr \<lparr>content_length = Header 60, start_time = 0,
                   stream = [Data (replicate 60 CHR ''y'') 2]\<rparr>)
      ''https://example.org/a.zip'' ''out/v1.0/a.zip'' (Some 100)
      \<lparr>files = [''out/v1.0/a.zip'' \<mapsto> replicate 40 CHR ''x''], requests = [], console = []\<rparr>))
     ''out/v1.0/a.zip'' = 100 \<and>
   fst (download_file_with_progress
      (\<lambda>req. Inr \<lparr>content_length = Header 60, start_time = 0,
                   stream = [Data (replicate 60 CHR ''y'') 2]\<rparr>)
      ''https://example.org/a.zip'' ''out/v1.0/a.zip'' (Some 100)
      \<lparr>files = [''out/v1.0/a.zip'' \<mapsto> replicate 40 CHR ''x''], requests = [], console = []\<rparr>) =
     Inr Completed"
proof -
  let ?w = "\<lparr>files = [''out/v1.0/a.zip'' \<mapsto> replicate 40 CHR ''x''], requests = [], console = []\<rparr>"
  let ?resp = "\<lparr>content_length = Header 60, start_time = 0,
                 stream = [Data (replicate 60 CHR ''y'') 2]\<rparr>"
  have h1: "files ?w ''out/v1.0/a.zip'' = Some (replicate 40 CHR ''x'')" by simp
  have h2: "int (length (replicate 40 CHR ''x'')) < 100" by simp
  have h3: "reads_to_end [Data (replicate 60 CHR ''y'') 2]" by simp
  have h4: "int (length (delivered [Data (replicate 60 CHR ''y'') 2])) = 60" by simp
  from resumed_download [OF h1 h2, of "\<lambda>req. Inr ?resp" "''https://example.org/a.zip''" ?resp 60]
    h3 h4
  show ?thesis by simp
qed


text \<open>
  C2, where the declared size is zero. An empty file is on disk and the manifest
  declares zero bytes: the test of line 47 reads the declared size as a truth value, so
  the equal sizes are not compared, and the program requests the file again with
  \<open>Range: bytes=0-\<close>. Here the server answers 416 and the outcome is "Failed to
  download", not "File already exists and matches expected size".
\<close>

theorem zero_size_file_is_requested_again:
  "download_file_with_progress (\<lambda>req. Inl (HTTPError 416)) ''https://example.org/empty.txt''
     ''out/empty.txt'' (Some 0)
     \<lparr>files = [''out/empty.txt'' \<mapsto> []], requests = [], console = []\<rparr> =
   (Inr (TransferFailed (HTTPError 416)),
    \<lparr>files = [''out/empty.txt'' \<mapsto> []],
       requests = [Request ''https://example.org/empty.txt'' (Some 0)], console = []\<rparr>)"
  by (simp add: download_file_with_progress_def prepare_def transfer_def except_clause_def
        truthy_int_def Let_def)

text \<open>With a declared size other than zero the file is skipped, as C2 says.\<close>

lemma matching_nonzero_size_is_skipped:
  assumes "files w p = Some old" and "int (length old) = declared" and "declared \<noteq> 0"
  shows "download_file_with_progress urlopen url p (Some declared) w = (Inr AlreadyComplete, w)"
  using assms by (simp add: download_file_with_progress_def prepare_existing truthy_int_def)

text \<open>
  C3, where the declared size is zero. The manifest declares zero bytes, the server
  streams three: the test of line 88 reads the declared size as a truth value, so the
  sizes are not compared and the outcome is "Done" with three bytes on disk.
\<close>

theorem zero_declared_size_is_not_verified:
  "fst (download_file_with_progress
     (\<lambda>req. Inr \<lparr>content_length = Header 3, start_time = 0, stream = [Data ''abc'' 1]\<rparr>)
     ''https://example.org/z.bin'' ''out/z.bin'' (Some 0)
     \<lparr>files = Map.empty, requests = [], console = []\<rparr>) = Inr Completed \<and>
   getsize (snd (download_file_with_progress
     (\<lambda>req. Inr \<lparr>content_length = Header 3, start_time = 0, stream = [Data ''abc'' 1]\<rparr>)
     ''https://example.org/z.bin'' ''out/z.bin'' (Some 0)
     \<lparr>files = Map.empty, requests = [], console = []\<rparr>)) ''out/z.bin'' = 3"
  by (simp add: download_file_with_progress_def prepare_def transfer_def except_clause_def
        open_file_def write_chunk_def getsize_def truthy_int_def py_int_def Let_def)

text \<open>
  With a declared size other than zero, a stream that reaches its end is verified as C3
  says: the outcome is "Done" when the size on disk is the declared one and "File size
  mismatch" otherwise, and in both cases the function returns normally.
\<close>

lemma completed_stream_is_verified:
  assumes "prepare w url p (Some declared) = Some (req, m, ex)" and "declared \<noteq> 0"
      and "urlopen req = Inr resp" and "content_length resp = Header n"
      and "stream_loop p (n + ex) (start_time resp) ex (stream resp)
             (open_file (w\<lparr>requests := requests w @ [req]\<rparr>) p m) = (Inr (), w')"
  shows "download_file_with_progress urlopen url p (Some declared) w =
           (Inr (if getsize w' p = declared then Completed else SizeMismatch), w')"
  using assms
  by (simp add: download_file_with_progress_def transfer_def except_clause_def truthy_int_def
        Let_def)

text \<open>
  C4, as the program has it. The \<open>except\<close> clause names two classes. When the transfer
  of an asset raises an \<open>HTTPError\<close> or a \<open>URLError\<close>, the download of that asset
  returns normally with "Failed to download", the loop goes on with the remaining assets
  from the world the failure left, and a file that was on disk before still starts with
  the bytes it had.
\<close>

theorem http_and_url_errors_are_contained:
  assumes "prepare w (browser_download_url a) (path_join output_dir (asset_name a))
             (Some (asset_size a)) = Some (req, m, existing_size)"
      and "transfer urlopen req m (path_join output_dir (asset_name a)) existing_size
             (Some (asset_size a)) w = (Inl e, w')"
      and "is_http_or_url_error e"
  shows "download_file_with_progress urlopen (browser_download_url a)
           (path_join output_dir (asset_name a)) (Some (asset_size a)) w =
           (Inr (TransferFailed e), w') \<and>
         download_assets urlopen output_dir (a # rest) w =
           download_assets urlopen output_dir rest w' \<and>
         (files w (path_join output_dir (asset_name a)) = Some old \<longrightarrow>
            (\<exists>sfx. files w' (path_join output_dir (asset_name a)) = Some (old @ sfx)))"
proof -
  have d: "download_file_with_progress urlopen (browser_download_url a)
           (path_join output_dir (asset_name a)) (Some (asset_size a)) w =
           (Inr (TransferFailed e), w')"
    using assms by (simp add: download_file_with_progress_def except_clause_def)
  then have "download_assets urlopen output_dir (a # rest) w =
           download_assets urlopen output_dir rest w'"
    by simp
  moreover have "\<exists>sfx. files w' (path_join output_dir (asset_name a)) = Some (old @ sfx)"
    if "files w (path_join output_dir (asset_name a)) = Some old"
    using download_extends [OF that, of urlopen "browser_download_url a" "Some (asset_size a)"] d
    by simp
  ultimately show ?thesis using d by blast
qed

theorem http_and_url_errors_are_contained_witness:
  "prepare \<lparr>files = [''out/a.zip'' \<mapsto> ''ab''], requests = [], console = []\<rparr> ''u1''
     (path_join ''out'' ''a.zip'') (Some 3) = Some (Request ''u1'' (Some 2), Ab, 2) \<and>
   transfer
     (\<lambda>req. if req = Request ''u1'' (Some 2) then Inl (HTTPError 503)
             else Inr \<lparr>content_length = Header 2, start_time = 0, stream = [Data ''hi'' 1]\<rparr>)
     (Request ''u1'' (Some 2)) Ab (path_join ''out'' ''a.zip'') 2 (Some 3)
     \<lparr>files = [''out/a.zip'' \<mapsto> ''ab''], requests = [], console = []\<rparr> =
     (Inl (HTTPError 503),
      \<lparr>files = [''out/a.zip'' \<mapsto> ''ab''], requests = [Request ''u1'' (Some 2)], console = []\<rparr>) \<and>
   is_http_or_url_error (HTTPError 503) \<and>
   download_assets
     (\<lambda>req. if req = Request ''u1'' (Some 2) then Inl (HTTPError 503)
             else Inr \<lparr>content_length = Header 2, start_time = 0, stream = [Data ''hi'' 1]\<rparr>)
     ''out''
     [\<lparr>asset_name = ''a.zip'', asset_size = 3, browser_download_url = ''u1''\<rparr>,
      \<lparr>asset_name = ''b.zip'', asset_size = 2, browser_download_url = ''u2''\<rparr>]
     \<lparr>files = [''out/a.zip'' \<mapsto> ''ab''], requests = [], console = []\<rparr> =
   download_assets
     (\<lambda>req. if req = Request ''u1'' (Some 2) then Inl (HTTPError 503)
             else Inr \<lparr>content_length = Header 2, start_time = 0, stream = [Data ''hi'' 1]\<rparr>)
     ''out''
     [\<lparr>asset_name = ''b.zip'', asset_size = 2, browser_download_url = ''u2''\<rparr>]
     \<lparr>files = [''out/a.zip'' \<mapsto> ''ab''], requests = [Request ''u1'' (Some 2)], console = []\<rparr> \<and>
   requests (snd (download_assets
     (\<lambda>req. if req = Request ''u1'' (Some 2) then Inl (HTTPError 503)
             else Inr \<lparr>content_length = Header 2, start_time = 0, stream = [Data ''hi'' 1]\<rparr>)
     ''out''
     [\<lparr>asset_name = ''b.zip'', asset_size = 2, browser_download_url = ''u2''\<rparr>]
     \<lparr>files = [''out/a.zip'' \<mapsto> ''ab''], requests = [Request ''u1'' (Some 2)], console = []\<rparr>)) =
     [Request ''u1'' (Some 2), Request ''u2'' None]"
proof -
  let ?w = "\<lparr>files = [''out/a.zip'' \<mapsto> ''ab''], requests = [], console = []\<rparr>"
  let ?w' = "\<lparr>files = [''out/a.zip'' \<mapsto> ''ab''], requests = [Request ''u1'' (Some 2)], console = []\<rparr>"
  let ?net = "\<lambda>req. if req = Request ''u1'' (Some 2) then Inl (HTTPError 503)
             else Inr \<lparr>content_length = Header 2, start_time = 0, stream = [Data ''hi'' 1]\<rparr>"
  let ?a = "\<lparr>asset_name = ''a.zip'', asset_size = 3, browser_download_url = ''u1''\<rparr>"
  let ?b = "\<lparr>asset_name = ''b.zip'', asset_size = 2, browser_download_url = ''u2''\<rparr>"
  have pj: "path_join ''out'' ''a.zip'' = ''out/a.zip''" "path_join ''out'' ''b.zip'' = ''out/b.zip''"
    by (simp_all add: path_join_def)
  have h1: "prepare ?w (browser_download_url ?a) (path_join ''out'' (asset_name ?a))
              (Some (asset_size ?a)) = Some (Request ''u1'' (Some 2), Ab, 2)"
    by (simp add: pj prepare_def truthy_int_def)
  have h2: "transfer ?net (Request ''u1'' (Some 2)) Ab (path_join ''out'' (asset_name ?a)) 2
              (Some (asset_size ?a)) ?w = (Inl (HTTPError 503), ?w')"
    by (simp add: pj transfer_def)
  have h3: "is_http_or_url_error (HTTPError 503)" by simp
  have r: "requests (snd (download_assets ?net ''out'' [?b] ?w')) =
             [Request ''u1'' (Some 2), Request ''u2'' None]"
    by (simp add: pj download_file_with_progress_def prepare_def transfer_def except_clause_def
          open_file_def write_chunk_def getsize_def truthy_int_def py_int_def Let_def)
  from http_and_url_errors_are_contained [OF h1 h2 h3, of "[?b]"] h1 h2 r
  show ?thesis by simp
qed

theorem read_error_aborts_the_batch:
  "fst (download_assets
     (\<lambda>req. if req = Request ''u1'' None
             then Inr \<lparr>content_length = Header 3, start_time = 0,
                        stream = [Data ''ab'' 1, Raises ConnectionResetError]\<rparr>
             else Inr \<lparr>content_length = Header 2, start_time = 0, stream = [Data ''hi'' 1]\<rparr>)
     ''out''
     [\<lparr>asset_name = ''a.zip'', asset_size = 3, browser_download_url = ''u1''\<rparr>,
      \<lparr>asset_name = ''b.zip'', asset_size = 2, browser_download_url = ''u2''\<rparr>]
     \<lparr>files = Map.empty, requests = [], console = []\<rparr>) = Inl ConnectionResetError \<and>
   requests (snd (download_assets
     (\<lambda>req. if req = Request ''u1'' None
             then Inr \<lparr>content_length = Header 3, start_time = 0,
                        stream = [Data ''ab'' 1, Raises ConnectionResetError]\<rparr>
             else Inr \<lparr>content_length = Header 2, start_time = 0, stream = [Data ''hi'' 1]\<rparr>)
     ''out''
     [\<lparr>asset_name = ''a.zip'', asset_size = 3, browser_download_url = ''u1''\<rparr>,
      \<lparr>asset_name = ''b.zip'', asset_size = 2, browser_download_url = ''u2''\<rparr>]
     \<lparr>files = Map.empty, requests = [], console = []\<rparr>)) = [Request ''u1'' None]"
  by (simp add: path_join_def download_file_with_progress_def prepare_def transfer_def
        except_clause_def open_file_def write_chunk_def getsize_def truthy_int_def py_int_def
        Let_def)

text \<open>
  The unguarded division of line 71 ends the batch in the same way: a new file, a
  response without a \<open>Content-Length\<close> header, one chunk.
\<close>

lemma missing_content_length_divides_by_zero:
  "fst (download_assets
     (\<lambda>req. Inr \<lparr>content_length = NoHeader, start_time = 0, stream = [Data ''ab'' 1]\<rparr>)
     ''out''
     [\<lparr>asset_name = ''a.zip'', asset_size = 2, browser_download_url = ''u1''\<rparr>,
      \<lparr>asset_name = ''b.zip'', asset_size = 2, browser_download_url = ''u2''\<rparr>]
     \<lparr>files = Map.empty, requests = [], console = []\<rparr>) = Inl ZeroDivisionError"
  by (simp add: path_join_def download_file_with_progress_def prepare_def transfer_def
        except_clause_def open_file_def write_chunk_def getsize_def truthy_int_def py_int_def
        Let_def)

text \<open>
  C9, on a resumed download. 40 bytes are on disk, the server sends the other 60 in one
  chunk, and 2 seconds pass between the start of the stream and the end of that chunk.
  The speed of the progress line is (40 + 60) / 2 = 50 bytes per second: line 61
  starts \<open>bytes_so_far\<close> at the size already on disk and line 75 divides it by the time
  of this attempt. The bytes moved in this attempt over the same time are 60 / 2 = 30.
\<close>

theorem resumed_speed_counts_bytes_on_disk:
  "console (snd (download_file_with_progress
     (\<lambda>req. Inr \<lparr>content_length = Header 60, start_time = 10,
                  stream = [Data (replicate 60 CHR ''y'') 12]\<rparr>)
     ''https://example.org/a.zip'' ''out/v1.0/a.zip'' (Some 100)
     \<lparr>files = [''out/v1.0/a.zip'' \<mapsto> replicate 40 CHR ''x''], requests = [], console = []\<rparr>)) =
     [Progress 50 100 50] \<and>
   real (length (replicate 60 CHR ''y'')) / (12 - 10) = 30"
  by (simp add: download_file_with_progress_def prepare_def transfer_def except_clause_def
        open_file_def write_chunk_def getsize_def truthy_int_def py_int_def Let_def)

text \<open>On a new file the two agree: nothing is on disk when the attempt starts.\<close>

lemma fresh_speed_is_bytes_moved_over_elapsed:
  "console (snd (download_file_with_progress
     (\<lambda>req. Inr \<lparr>content_length = Header 60, start_time = 10,
                  stream = [Data (replicate 60 CHR ''y'') 12]\<rparr>)
     ''https://example.org/a.zip'' ''out/v1.0/a.zip'' (Some 60)
     \<lparr>files = Map.empty, requests = [], console = []\<rparr>)) = [Progress 50 100 30]"
  by (simp add: download_file_with_progress_def prepare_def transfer_def except_clause_def
        open_file_def write_chunk_def getsize_def truthy_int_def py_int_def Let_def)

text \<open>
  C10. The target file is on disk, with any size. After the download, whatever its
  outcome, the file starts with the bytes it had: nothing truncates or rewrites them.
  The program either returns at once without touching the file (the size on disk is the
  declared size) or prepares a request with \<open>Range: bytes=<size on disk>-\<close> and opens the
  file for appending; it does the latter, and sends that request, when the file on disk
  is larger than the declared size.
\<close>

theorem existing_file_is_only_appended_to:
  assumes "files w p = Some old"
  shows "(\<exists>sfx. files (snd (download_file_with_progress urlopen url p expected_size w)) p =
            Some (old @ sfx)) \<and>
         (prepare w url p expected_size = None \<or>
          prepare w url p expected_size =
            Some (Request url (Some (int (length old))), Ab, int (length old))) \<and>
         (expected_size = Some declared \<and> declared < int (length old) \<longrightarrow>
            prepare w url p expected_size =
              Some (Request url (Some (int (length old))), Ab, int (length old)) \<and>
            requests (snd (download_file_with_progress urlopen url p expected_size w)) =
              requests w @ [Request url (Some (int (length old)))])"
proof -
  have "\<exists>sfx. files (snd (download_file_with_progress urlopen url p expected_size w)) p =
          Some (old @ sfx)"
    using assms by (rule download_extends)
  moreover have "prepare w url p expected_size = None \<or>
      prepare w url p expected_size =
        Some (Request url (Some (int (length old))), Ab, int (length old))"
    using assms by (simp add: prepare_existing)
  moreover have "prepare w url p expected_size =
        Some (Request url (Some (int (length old))), Ab, int (length old)) \<and>
      requests (snd (download_file_with_progress urlopen url p expected_size w)) =
        requests w @ [Request url (Some (int (length old)))]"
    if "expected_size = Some declared" "declared < int (length old)"
  proof -
    from that assms have "prepare w url p expected_size =
        Some (Request url (Some (int (length old))), Ab, int (length old))"
      by (auto simp: prepare_existing)
    with download_requests [OF this] show ?thesis by simp
  qed
  ultimately show ?thesis by blast
qed

theorem existing_file_is_only_appended_to_witness:
  "files \<lparr>files = [''out/a.zip'' \<mapsto> ''12345''], requests = [], console = []\<rparr> ''out/a.zip'' =
     Some ''12345'' \<and>
   (3::int) < int (length ''12345'') \<and>
   prepare \<lparr>files = [''out/a.zip'' \<mapsto> ''12345''], requests = [], console = []\<rparr>
     ''u'' ''out/a.zip'' (Some 3) = Some (Request ''u'' (Some 5), Ab, 5) \<and>
   requests (snd (download_file_with_progress
      (\<lambda>req. Inr \<lparr>content_length = Header 2, start_time = 0, stream = [Data ''67'' 1]\<rparr>)
      ''u'' ''out/a.zip'' (Some 3)
      \<lparr>files = [''out/a.zip'' \<mapsto> ''12345''], requests = [], console = []\<rparr>)) =
     [Request ''u'' (Some 5)] \<and>
   files (snd (download_file_with_progress
      (\<lambda>req. Inr \<lparr>content_length = Header 2, start_time = 0, stream = [Data ''67'' 1]\<rparr>)
      ''u'' ''out/a.zip'' (Some 3)
      \<lparr>files = [''out/a.zip'' \<mapsto> ''12345''], requests = [], console = []\<rparr>)) ''out/a.zip'' =
     Some ''1234567''"
proof -
  let ?w = "\<lparr>files = [''out/a.zip'' \<mapsto> ''12345''], requests = [], console = []\<rparr>"
  let ?net = "\<lambda>req::request. Inr \<lparr>content_length = Header 2, start_time = 0, stream = [Data ''67'' 1]\<rparr> :: exn + response"
  have h: "files ?w ''out/a.zip'' = Some ''12345''" by simp
  have f: "files (snd (download_file_with_progress ?net ''u'' ''out/a.zip'' (Some 3) ?w)) ''out/a.zip'' =
     Some ''1234567''"
    by (simp add: download_file_with_progress_def prepare_def transfer_def except_clause_def
          open_file_def write_chunk_def getsize_def truthy_int_def py_int_def Let_def)
  from existing_file_is_only_appended_to [where urlopen = ?net and url = "''u''" and
      expected_size = "Some 3" and declared = 3, OF h] f
  show ?thesis by simp
qed


end
